theory Spec2Isabelle
  imports Main "HOL-Library.FSet"
begin

section \<open>The outcome taxonomy and its classifiers\<close>

text \<open>
  The script \<^verbatim>\<open>daily-status.py\<close> normalises the status vocabularies of GitHub
  workflows and of Appveyor into the enumeration \<^verbatim>\<open>Outcome\<close>. Python strings are
  modelled as \<^typ>\<open>string\<close> (lists of characters of eight bits), Python's unbounded
  integers as \<^typ>\<open>int\<close>, and every exception the code can raise is a value of the type
  \<open>error\<close>; a function that can raise returns \<open>error + 'a\<close> with \<open>Inl\<close> for the
  exception.
\<close>

datatype Outcome = PASS | FAIL | ERROR | INCOMPLETE

text \<open>
  The exceptions of the script. The two \<^verbatim>\<open>ValueError\<close>s of the classifiers carry the
  offending string (the source formats it into the message with \<^verbatim>\<open>!r\<close>);
  \<open>AttributeError\<close> carries the name of the attribute that the class lacks;
  \<open>AssertionError\<close> is the failed \<^verbatim>\<open>assert m\<close>; \<open>UnpackError\<close> is the
  \<^verbatim>\<open>ValueError\<close> of the one-element tuple unpacking, with the number of values found;
  \<open>TypeError\<close> is the comparison of a naive with an aware datetime; \<open>HTTPError\<close> is a
  failed request, with its URL.
\<close>

datatype error =
    UnknownConclusion string
  | UnknownAppveyorStatus string
  | AttributeError string
  | AssertionError
  | UnpackError nat
  | TypeError
  | HTTPError string

text \<open>
  \<^verbatim>\<open>Outcome.from_conclusion\<close>. The enumeration has the members \<^verbatim>\<open>PASS\<close>, \<^verbatim>\<open>FAIL\<close>,
  \<^verbatim>\<open>ERROR\<close> and \<^verbatim>\<open>INCOMPLETE\<close> only, so the attribute lookup \<^verbatim>\<open>cls.ERRROR\<close> of the
  third branch raises \<^verbatim>\<open>AttributeError\<close>.
\<close>

definition from_conclusion :: "string \<Rightarrow> error + Outcome" where
  "from_conclusion concl =
     (if concl = ''success'' then Inr PASS
      else if concl = ''failure'' then Inr FAIL
      else if concl = ''timed_out'' then Inl (AttributeError ''ERRROR'')
      else if concl \<in> {''neutral'', ''action_required'', ''cancelled'', ''skipped'', ''stale''}
        then Inr INCOMPLETE
      else Inl (UnknownConclusion concl))"

text \<open>\<^verbatim>\<open>Outcome.from_appveyor_status\<close>.\<close>

definition from_appveyor_status :: "string \<Rightarrow> error + Outcome" where
  "from_appveyor_status status =
     (if status = ''success'' then Inr PASS
      else if status = ''failed'' then Inr FAIL
      else if status = ''cancelled'' then Inr INCOMPLETE
      else Inl (UnknownAppveyorStatus status))"

text \<open>The value of an enumeration member, and \<^verbatim>\<open>Outcome.as_html\<close>.\<close>

fun Outcome_value :: "Outcome \<Rightarrow> string" where
  "Outcome_value PASS = ''PASSED''"
| "Outcome_value FAIL = ''FAILED''"
| "Outcome_value ERROR = ''ERRORED''"
| "Outcome_value INCOMPLETE = ''INCOMPLETE''"

fun Outcome_as_html :: "Outcome \<Rightarrow> string" where
  \<open>Outcome_as_html PASS = ''<span style="color: green">PASS</span>''\<close>
| \<open>Outcome_as_html FAIL = ''<span style="color: red">FAIL</span>''\<close>
| \<open>Outcome_as_html ERROR = ''<span style="color: red; text-weight: bold">ERROR</span>''\<close>
| \<open>Outcome_as_html INCOMPLETE = ''<span style="color: grey">&#x2014;</span>''\<close>

section \<open>Text helpers\<close>

text \<open>The newline character of the Python literals.\<close>

abbreviation NL :: string where
  "NL \<equiv> [CHR 0x0A]"

text \<open>
  \<^verbatim>\<open>str(n)\<close> for an integer: decimal digits, most significant first, with a minus sign
  for a negative number.
\<close>

definition digit_char :: "nat \<Rightarrow> char" where
  "digit_char d = ''0123456789'' ! d"

fun str_nat :: "nat \<Rightarrow> string" where
  "str_nat n =
     (if n < 10 then [digit_char n] else str_nat (n div 10) @ [digit_char (n mod 10)])"

declare str_nat.simps [simp del]

definition str_int :: "int \<Rightarrow> string" where
  "str_int i = (if i < 0 then CHR ''-'' # str_nat (nat (- i)) else str_nat (nat i))"

text \<open>
  \<^verbatim>\<open>xml.sax.saxutils.escape\<close> without extra entities: the library replaces the ampersand
  first, then the two angle brackets, which comes to replacing each character on its own.
\<close>

fun escape_char :: "char \<Rightarrow> string" where
  "escape_char c =
     (if c = CHR ''&'' then ''&amp;''
      else if c = CHR ''>'' then ''&gt;''
      else if c = CHR ''<'' then ''&lt;''
      else [c])"

definition escape :: "string \<Rightarrow> string" where
  "escape data = concat (map escape_char data)"

text \<open>\<^verbatim>\<open>sep.join(parts)\<close>.\<close>

fun join :: "string \<Rightarrow> string list \<Rightarrow> string" where
  "join sep [] = []"
| "join sep [x] = x"
| "join sep (x # y # ys) = x @ sep @ join sep (y # ys)"

section \<open>Datetimes\<close>

text \<open>
  A \<^verbatim>\<open>datetime\<close> is modelled by what the script observes of it: whether it carries a
  time zone, its position on the time line in microseconds (for a naive datetime, the
  position its wall-clock reading has in UTC) and the text that \<^verbatim>\<open>str\<close> gives for it
  (the field \<open>as_str\<close>).
\<close>

record datetime =
  tz_aware :: bool
  instant :: int
  as_str :: string

text \<open>
  \<^verbatim>\<open>ensure_aware\<close>: a naive datetime gets the time zone UTC, which keeps its wall-clock
  reading and appends the offset to its text.
\<close>

definition ensure_aware :: "datetime \<Rightarrow> datetime" where
  "ensure_aware dt =
     (if \<not> tz_aware dt then dt\<lparr>tz_aware := True, as_str := as_str dt @ ''+00:00''\<rparr> else dt)"

text \<open>
  \<^verbatim>\<open>dt <= cutoff\<close>. The cutoff is \<^verbatim>\<open>datetime.now(timezone.utc) - WINDOW\<close>, always
  aware, so it is given by its instant; comparing a naive datetime with it raises
  \<^verbatim>\<open>TypeError\<close>.
\<close>

definition le_cutoff :: "datetime \<Rightarrow> int \<Rightarrow> error + bool" where
  "le_cutoff dt cutoff = (if tz_aware dt then Inr (instant dt \<le> cutoff) else Inl TypeError)"

section \<open>Counters and dictionaries\<close>

text \<open>
  A Python \<^verbatim>\<open>dict\<close> keeps its keys in insertion order, and the subject line is written
  in that order, so a dictionary is an association list. \<open>dict_get d k v\<close> is
  \<^verbatim>\<open>d.get(k, v)\<close>; \<open>dict_set d k v\<close> is \<^verbatim>\<open>d[k] = v\<close>, which keeps the place of a key
  that is there and appends a new one.
\<close>

type_synonym ('k, 'v) dict = "('k \<times> 'v) list"

fun dict_get :: "('k, 'v) dict \<Rightarrow> 'k \<Rightarrow> 'v \<Rightarrow> 'v" where
  "dict_get [] k dflt = dflt"
| "dict_get ((k', v) # d) k dflt = (if k' = k then v else dict_get d k dflt)"

fun dict_set :: "('k, 'v) dict \<Rightarrow> 'k \<Rightarrow> 'v \<Rightarrow> ('k, 'v) dict" where
  "dict_set [] k v = [(k, v)]"
| "dict_set ((k', v') # d) k v = (if k' = k then (k, v) # d else (k', v') # dict_set d k v)"

text \<open>
  \<^verbatim>\<open>collections.Counter\<close> is a dictionary of counts. \<open>Counter_of xs\<close> is
  \<^verbatim>\<open>Counter(xs)\<close> for an iterable: each element in turn has its count raised by one.
  \<open>Counter_update c other\<close> is \<^verbatim>\<open>c.update(other)\<close> for a mapping \<open>other\<close>: each
  item of \<open>other\<close> in turn has its count added.
\<close>

type_synonym 'a Counter = "('a, nat) dict"

definition Counter_of :: "'a list \<Rightarrow> 'a Counter" where
  "Counter_of xs = foldl (\<lambda>c x. dict_set c x (dict_get c x 0 + 1)) [] xs"

definition Counter_update :: "'a Counter \<Rightarrow> 'a Counter \<Rightarrow> 'a Counter" where
  "Counter_update c other = foldl (\<lambda>c (elem, count). dict_set c elem (count + dict_get c elem 0)) c other"

section \<open>The report model\<close>

text \<open>The constants of the script.\<close>

definition WORKFLOW_REPO :: string where
  "WORKFLOW_REPO = ''datalad/git-annex''"

definition WORKFLOWS :: "string list" where
  "WORKFLOWS = [''build-ubuntu.yaml'', ''build-macos.yaml'', ''build-windows.yaml'']"

definition CLIENTS_REPO :: string where
  "CLIENTS_REPO = ''datalad/git-annex-ci-client-jobs''"

definition APPVEYOR_PROJECT :: string where
  "APPVEYOR_PROJECT = ''mih/git-annex''"

text \<open>
  The dataclasses. Several of them have fields of the same name; a field is then written
  with its record, as in \<open>JobStatus.outcome\<close>. The fields \<^verbatim>\<open>id\<close> and \<^verbatim>\<open>file\<close> are
  \<open>id'\<close> and \<open>file'\<close> here. The \<^verbatim>\<open>tests\<close> of a \<^verbatim>\<open>ClientStatus\<close> are a dictionary from
  test names to outcomes.
\<close>

record JobStatus =
  name :: string
  url :: string
  timestamp :: datetime
  outcome :: Outcome

record WorkflowStatus =
  file' :: string
  name :: string
  build_id :: int
  url :: string
  timestamp :: datetime
  outcome :: Outcome
  jobs :: "JobStatus list"

record ClientStatus =
  client_id :: string
  build_id :: int
  timestamp :: datetime
  artifact_url :: string
  tests :: "(string, Outcome) dict"

record ResultProcessError =
  client_id :: string
  build_id :: int
  timestamp :: datetime
  url :: string

record AppveyorJob =
  build_id :: int
  id' :: string
  name :: string
  outcome :: Outcome

record AppveyorBuild =
  id' :: int
  version :: string
  timestamp :: datetime
  outcome :: Outcome
  jobs :: "AppveyorJob list"

text \<open>
  An element of \<^verbatim>\<open>client_runs\<close> is a \<^verbatim>\<open>ClientStatus\<close> or a \<^verbatim>\<open>ResultProcessError\<close>;
  the loop over them reads \<^verbatim>\<open>client_id\<close> and calls \<^verbatim>\<open>as_html\<close> and \<^verbatim>\<open>get_summary\<close>
  on either.
\<close>

datatype ClientRun = Status ClientStatus | ProcessError ResultProcessError

record DailyStatus =
  github_runs :: "WorkflowStatus list"
  client_runs :: "ClientRun list"
  all_clients :: "string fset"
  appveyor_builds :: "AppveyorBuild list"

section \<open>Rendering and summaries of the records\<close>

text \<open>\<^verbatim>\<open>JobStatus.as_html\<close>.\<close>

definition JobStatus_as_html :: "JobStatus \<Rightarrow> string" where
  \<open>JobStatus_as_html j =
     Outcome_as_html (JobStatus.outcome j) @ '' <a href="'' @ JobStatus.url j @ ''">''
     @ escape (JobStatus.name j) @ ''</a> '' @ as_str (JobStatus.timestamp j)\<close>

text \<open>\<^verbatim>\<open>WorkflowStatus.get_summary\<close> and \<^verbatim>\<open>WorkflowStatus.as_html\<close>.\<close>

definition WorkflowStatus_get_summary :: "WorkflowStatus \<Rightarrow> Outcome Counter" where
  "WorkflowStatus_get_summary w = Counter_of (map JobStatus.outcome (WorkflowStatus.jobs w))"

definition WorkflowStatus_as_html :: "WorkflowStatus \<Rightarrow> string" where
  \<open>WorkflowStatus_as_html w =
     foldl (\<lambda>s j. s @ ''<li>'' @ JobStatus_as_html j @ ''</li>'' @ NL)
       (''<p>'' @ Outcome_as_html (WorkflowStatus.outcome w) @ '' <a href="''
        @ WorkflowStatus.url w @ ''">'' @ escape (WorkflowStatus.name w) @ '' #''
        @ str_int (WorkflowStatus.build_id w) @ ''</a> ''
        @ as_str (WorkflowStatus.timestamp w) @ ''</p>'' @ NL @ ''<ul>'' @ NL)
       (WorkflowStatus.jobs w)
     @ ''</ul>'' @ NL\<close>

text \<open>\<^verbatim>\<open>ClientStatus.get_summary\<close> and \<^verbatim>\<open>ClientStatus.as_html\<close>.\<close>

definition ClientStatus_get_summary :: "ClientStatus \<Rightarrow> Outcome Counter" where
  "ClientStatus_get_summary c = Counter_of (map snd (tests c))"

definition ClientStatus_as_html :: "ClientStatus \<Rightarrow> string" where
  \<open>ClientStatus_as_html c =
     foldl (\<lambda>s (testname, oc). s @ ''<li>'' @ Outcome_as_html oc @ '' '' @ escape testname
                                  @ ''</li>'' @ NL)
       (''<p>'' @ escape (ClientStatus.client_id c) @ '' #''
        @ str_int (ClientStatus.build_id c) @ '' [<a href="'' @ artifact_url c
        @ ''">download logs</a>] '' @ as_str (ClientStatus.timestamp c) @ ''</p><ul>'' @ NL)
       (tests c)
     @ ''</ul>''\<close>

text \<open>\<^verbatim>\<open>ResultProcessError.get_summary\<close> and \<^verbatim>\<open>ResultProcessError.as_html\<close>.\<close>

definition ResultProcessError_get_summary :: "ResultProcessError \<Rightarrow> Outcome Counter" where
  "ResultProcessError_get_summary e = Counter_of [ERROR]"

definition ResultProcessError_as_html :: "ResultProcessError \<Rightarrow> string" where
  \<open>ResultProcessError_as_html e =
     Outcome_as_html ERROR @ '' processing results for ''
     @ escape (ResultProcessError.client_id e) @ '' #''
     @ str_int (ResultProcessError.build_id e) @ '' [<a href="'' @ ResultProcessError.url e
     @ ''">logs</a>] '' @ as_str (ResultProcessError.timestamp e)\<close>

text \<open>The three members that the loop over \<^verbatim>\<open>client_runs\<close> uses, on either class.\<close>

fun client_id_of :: "ClientRun \<Rightarrow> string" where
  "client_id_of (Status c) = ClientStatus.client_id c"
| "client_id_of (ProcessError e) = ResultProcessError.client_id e"

fun ClientRun_as_html :: "ClientRun \<Rightarrow> string" where
  "ClientRun_as_html (Status c) = ClientStatus_as_html c"
| "ClientRun_as_html (ProcessError e) = ResultProcessError_as_html e"

fun ClientRun_get_summary :: "ClientRun \<Rightarrow> Outcome Counter" where
  "ClientRun_get_summary (Status c) = ClientStatus_get_summary c"
| "ClientRun_get_summary (ProcessError e) = ResultProcessError_get_summary e"

text \<open>The property \<^verbatim>\<open>AppveyorJob.url\<close> and \<^verbatim>\<open>AppveyorJob.as_html\<close>.\<close>

definition AppveyorJob_url :: "AppveyorJob \<Rightarrow> string" where
  "AppveyorJob_url j =
     ''https://ci.appveyor.com/project/'' @ APPVEYOR_PROJECT @ ''/builds/''
     @ str_int (AppveyorJob.build_id j) @ ''/job/'' @ AppveyorJob.id' j"

definition AppveyorJob_as_html :: "AppveyorJob \<Rightarrow> string" where
  \<open>AppveyorJob_as_html j =
     Outcome_as_html (AppveyorJob.outcome j) @ '' <a href="'' @ AppveyorJob_url j @ ''">''
     @ escape (AppveyorJob.name j) @ ''</a>''\<close>

text \<open>
  The property \<^verbatim>\<open>AppveyorBuild.url\<close>, \<^verbatim>\<open>AppveyorBuild.get_summary\<close> and
  \<^verbatim>\<open>AppveyorBuild.as_html\<close>.
\<close>

definition AppveyorBuild_url :: "AppveyorBuild \<Rightarrow> string" where
  "AppveyorBuild_url b =
     ''https://ci.appveyor.com/project/'' @ APPVEYOR_PROJECT @ ''/builds/''
     @ str_int (AppveyorBuild.id' b)"

definition AppveyorBuild_get_summary :: "AppveyorBuild \<Rightarrow> Outcome Counter" where
  "AppveyorBuild_get_summary b = Counter_of (map AppveyorJob.outcome (AppveyorBuild.jobs b))"

definition AppveyorBuild_as_html :: "AppveyorBuild \<Rightarrow> string" where
  \<open>AppveyorBuild_as_html b =
     foldl (\<lambda>s j. s @ ''<li>'' @ AppveyorJob_as_html j @ ''</li>'' @ NL)
       (''<p>'' @ Outcome_as_html (AppveyorBuild.outcome b) @ '' <a href="''
        @ AppveyorBuild_url b @ ''">'' @ version b @ ''</a> ''
        @ as_str (AppveyorBuild.timestamp b) @ ''</p>'' @ NL @ ''<ul>'' @ NL)
       (AppveyorBuild.jobs b)
     @ ''</ul>'' @ NL\<close>

section \<open>The subject and the body of the report\<close>

text \<open>
  \<^verbatim>\<open>DailyStatus.get_subject_body\<close> runs three loops that each append to \<^verbatim>\<open>body\<close> and
  add to the counter \<^verbatim>\<open>qtys\<close>; the state of a loop is the pair of the two, and the
  loop over the client runs also carries the set \<^verbatim>\<open>seen\<close>. Each of the three
  \<^verbatim>\<open>if\<close> statements is a function on that state.
\<close>

definition github_step ::
  "string \<times> Outcome Counter \<Rightarrow> WorkflowStatus \<Rightarrow> string \<times> Outcome Counter" where
  "github_step st wfstatus =
     (case st of (body, qtys) \<Rightarrow>
        (body @ ''<li>'' @ WorkflowStatus_as_html wfstatus @ ''</li>'' @ NL,
         Counter_update qtys (WorkflowStatus_get_summary wfstatus)))"

definition github_section ::
  "WorkflowStatus list \<Rightarrow> string \<times> Outcome Counter \<Rightarrow> string \<times> Outcome Counter" where
  "github_section runs st =
     (if runs \<noteq> [] then foldl github_step st runs
      else (case st of (body, qtys) \<Rightarrow> (body @ ''<li>[no runs]</li>'' @ NL, qtys)))"

definition client_step ::
  "string \<times> string set \<times> Outcome Counter \<Rightarrow> ClientRun
     \<Rightarrow> string \<times> string set \<times> Outcome Counter" where
  \<open>client_step st cstatus =
     (case st of (body, seen, qtys) \<Rightarrow>
        (case (if client_id_of cstatus \<notin> seen
               then ('' id="'' @ client_id_of cstatus @ ''"'', insert (client_id_of cstatus) seen)
               else ([], seen)) of
           (idattr, seen') \<Rightarrow>
             (body @ ''<li'' @ idattr @ ''>'' @ ClientRun_as_html cstatus @ ''</li>'' @ NL,
              seen',
              Counter_update qtys (ClientRun_get_summary cstatus))))\<close>

definition clients_section ::
  "ClientRun list \<Rightarrow> string \<times> Outcome Counter \<Rightarrow> string \<times> Outcome Counter" where
  "clients_section runs st =
     (case st of (body, qtys) \<Rightarrow>
        if runs \<noteq> [] then
          (case foldl client_step (body, {}, qtys) runs of (body', seen, qtys') \<Rightarrow> (body', qtys'))
        else (body @ ''<li>[no runs]</li>'' @ NL, qtys))"

definition appveyor_step ::
  "string \<times> Outcome Counter \<Rightarrow> AppveyorBuild \<Rightarrow> string \<times> Outcome Counter" where
  "appveyor_step st build =
     (case st of (body, qtys) \<Rightarrow>
        (body @ ''<li>'' @ AppveyorBuild_as_html build @ ''</li>'' @ NL,
         Counter_update qtys (AppveyorBuild_get_summary build)))"

definition appveyor_section ::
  "AppveyorBuild list \<Rightarrow> string \<times> Outcome Counter \<Rightarrow> string \<times> Outcome Counter" where
  "appveyor_section builds st =
     (if builds \<noteq> [] then foldl appveyor_step st builds
      else (case st of (body, qtys) \<Rightarrow> (body @ ''<li>[no builds]</li>'' @ NL, qtys)))"

text \<open>
  Lines 92 to 120 of the script: the list of the three sections, and the counter, before
  the subject is made.
\<close>

definition render_sections :: "DailyStatus \<Rightarrow> string \<times> Outcome Counter" where
  "render_sections r =
     (case github_section (github_runs r)
             (''<ul>'' @ NL @ ''<li><p>GitHub:</p>'' @ NL @ ''<ul>'' @ NL, []) of
        (body1, qtys1) \<Rightarrow>
     (case clients_section (client_runs r)
             (body1 @ ''</ul>'' @ NL @ ''</li>'' @ NL @ ''<li><p>Local Clients:</p>'' @ NL
              @ ''<ul>'' @ NL, qtys1) of
        (body2, qtys2) \<Rightarrow>
     (case appveyor_section (appveyor_builds r)
             (body2 @ ''</ul>'' @ NL @ ''</li>'' @ NL @ ''<li><p>Appveyor Builds:</p>'' @ NL
              @ ''<ul>'' @ NL, qtys2) of
        (body3, qtys3) \<Rightarrow>
          (body3 @ ''</ul>'' @ NL @ ''</li>'' @ NL @ ''</ul>'', qtys3))))"

text \<open>
  The two set differences of lines 125 to 130, and the number \<^verbatim>\<open>absent\<close> of line 131.
\<close>

definition missing_workflows :: "DailyStatus \<Rightarrow> string fset" where
  "missing_workflows r =
     fset_of_list WORKFLOWS |-| fset_of_list (map file' (github_runs r))"

definition missing_clients :: "DailyStatus \<Rightarrow> string fset" where
  "missing_clients r = all_clients r |-| fset_of_list (map client_id_of (client_runs r))"

definition absent :: "DailyStatus \<Rightarrow> nat" where
  "absent r = fcard (missing_workflows r) + fcard (missing_clients r)"

text \<open>Lines 121 to 134: the subject, from the counter.\<close>

definition make_subject :: "DailyStatus \<Rightarrow> Outcome Counter \<Rightarrow> string" where
  "make_subject r qtys =
     (if qtys \<noteq> [] then
        (let subject = WORKFLOW_REPO @ '' daily summary: ''
               @ join '', '' (map (\<lambda>(oc, n). str_nat n @ '' '' @ Outcome_value oc) qtys)
         in if absent r \<noteq> 0 then subject @ '', '' @ str_nat (absent r) @ '' ABSENT''
            else subject)
      else WORKFLOW_REPO @ '' daily summary: NOTHING'')"

text \<open>Lines 135 to 146: the page around the three sections.\<close>

definition html_page :: "string \<Rightarrow> string \<Rightarrow> string" where
  \<open>html_page subject body =
     ''<!DOCTYPE html>'' @ NL
     @ ''<html lang="en">'' @ NL
     @ ''<head>'' @ NL
     @ ''<meta http-equiv="Content-Type" content="text/html; charset=utf-8">'' @ NL
     @ ''<title>'' @ subject @ ''</title>'' @ NL
     @ ''</head>'' @ NL
     @ ''<body>'' @ NL
     @ body @ NL
     @ ''</body>'' @ NL
     @ ''</html>''\<close>

definition get_subject_body :: "DailyStatus \<Rightarrow> string \<times> string" where
  "get_subject_body r =
     (case render_sections r of (body, qtys) \<Rightarrow>
        (let subject = make_subject r qtys in (subject, html_page subject body)))"

section \<open>The fetchers of \<^verbatim>\<open>main\<close>\<close>

text \<open>
  What \<^verbatim>\<open>main\<close> reads over the network is given by a record of functions, one for each
  kind of request; a request that fails (\<^verbatim>\<open>raise_for_status\<close>) gives \<open>Inl\<close>.
  \<^item> \<open>artifacts_of url\<close>: the list \<^verbatim>\<open>r.json()["artifacts"]\<close> of the response to
    \<^verbatim>\<open>s.get(run.artifacts_url)\<close>;
  \<^item> \<open>client_test_outcomes url\<close>: the dictionary that
    \<^verbatim>\<open>get_client_test_outcomes(s, url)\<close> builds from the downloaded archive;
  \<^item> \<open>build_jobs_of version\<close>: the list \<^verbatim>\<open>data["build"]["jobs"]\<close> of the build detail;
  \<^item> \<open>history start\<close>: the value \<^verbatim>\<open>data.get("builds")\<close> of a page of the build history,
    asked with the parameter \<^verbatim>\<open>startBuildId\<close> when \<open>start\<close> is not \<open>None\<close> (a missing
    list is the empty list here: the code treats both alike).
  The records below are the fields that the two loops read of a run of the workflow
  \<^verbatim>\<open>handle-result.yaml\<close> (an object of PyGithub), of an artifact, and of a build and
  a job of Appveyor's JSON. Timestamps of the JSON are given as parsed by \<^verbatim>\<open>isoparse\<close>.
\<close>

record GithubRun =
  status :: string
  created_at :: datetime
  conclusion :: string
  head_branch :: string
  html_url :: string
  artifacts_url :: string
  check_suite_id :: int

record Artifact =
  id' :: int
  archive_download_url :: string

record RawJob =
  jobId :: string
  name :: string
  status :: string

record RawBuild =
  finished :: "datetime option"
  buildId :: int
  version :: string
  status :: string
  started :: datetime

record session =
  artifacts_of :: "string \<Rightarrow> error + Artifact list"
  client_test_outcomes :: "string \<Rightarrow> error + (string, Outcome) dict"
  build_jobs_of :: "string \<Rightarrow> error + RawJob list"
  history :: "int option \<Rightarrow> error + RawBuild list"

subsection \<open>The branch name of a client run\<close>

text \<open>
  \<^verbatim>\<open>re.fullmatch(r"result-(.+)-(\d+)", run.head_branch)\<close>. The second group has digits
  only, so the hyphen before it is the last hyphen of the string: the greedy first group
  is all that stands between the prefix and that hyphen. It must be non-empty and without
  a newline (the dot matches no newline), and the second group must be non-empty and all
  digits (of the characters of eight bits, \<^verbatim>\<open>\d\<close> matches \<^verbatim>\<open>0\<close> to \<^verbatim>\<open>9\<close> only). The
  result is the pair of the two groups.
\<close>

definition is_digit :: "char \<Rightarrow> bool" where
  "is_digit c = (c \<in> set ''0123456789'')"

definition match_result_branch :: "string \<Rightarrow> (string \<times> string) option" where
  "match_result_branch s =
     (if take 7 s = ''result-'' \<and> CHR ''-'' \<in> set (drop 7 s) then
        (let rest = drop 7 s;
             g2 = rev (takeWhile (\<lambda>c. c \<noteq> CHR ''-'') (rev rest));
             g1 = take (length rest - length g2 - 1) rest
         in if g1 \<noteq> [] \<and> CHR 0x0A \<notin> set g1 \<and> g2 \<noteq> [] \<and> list_all is_digit g2
            then Some (g1, g2) else None)
      else None)"

text \<open>\<^verbatim>\<open>int(m[2])\<close> on a string of decimal digits.\<close>

definition digit_val :: "char \<Rightarrow> int" where
  "digit_val c = int (of_char c) - 48"

definition int_of_digits :: "string \<Rightarrow> int" where
  "int_of_digits ds = foldl (\<lambda>a c. 10 * a + digit_val c) 0 ds"

subsection \<open>The client results\<close>

text \<open>
  The \<^verbatim>\<open>ClientStatus\<close> of a run that passed (lines 309 to 326): the request for the
  artifacts, the unpacking of the one artifact, and the test outcomes.
\<close>

definition make_client_status ::
  "session \<Rightarrow> GithubRun \<Rightarrow> datetime \<Rightarrow> string \<Rightarrow> string \<Rightarrow> error + ClientStatus" where
  "make_client_status s run dt m1 m2 =
     (case artifacts_of s (artifacts_url run) of
        Inl e \<Rightarrow> Inl e
      | Inr arts \<Rightarrow>
          (case arts of
             [artifact] \<Rightarrow>
               (case client_test_outcomes s (archive_download_url artifact) of
                  Inl e \<Rightarrow> Inl e
                | Inr ts \<Rightarrow>
                    Inr \<lparr>ClientStatus.client_id = m1,
                         ClientStatus.build_id = int_of_digits m2,
                         ClientStatus.timestamp = dt,
                         artifact_url = ''https://github.com/'' @ CLIENTS_REPO @ ''/suites/''
                           @ str_int (check_suite_id run) @ ''/artifacts/''
                           @ str_int (Artifact.id' artifact),
                         tests = ts\<rparr>)
           | _ \<Rightarrow> Inl (UnpackError (length arts))))"

text \<open>
  The loop of lines 300 to 335 over the runs of the workflow \<^verbatim>\<open>handle-result.yaml\<close>, in
  the order PyGithub lists them, with the list \<^verbatim>\<open>client_statuses\<close> as accumulator.
\<close>

fun fetch_client_statuses ::
  "session \<Rightarrow> int \<Rightarrow> GithubRun list \<Rightarrow> ClientRun list \<Rightarrow> error + ClientRun list" where
  "fetch_client_statuses s cutoff [] client_statuses = Inr client_statuses"
| "fetch_client_statuses s cutoff (run # runs) client_statuses =
     (if GithubRun.status run \<noteq> ''completed''
      then fetch_client_statuses s cutoff runs client_statuses
      else
        (case le_cutoff (ensure_aware (created_at run)) cutoff of
           Inl e \<Rightarrow> Inl e
         | Inr True \<Rightarrow> Inr client_statuses
         | Inr False \<Rightarrow>
             (case match_result_branch (head_branch run) of
                None \<Rightarrow> Inl AssertionError
              | Some (m1, m2) \<Rightarrow>
                  (case from_conclusion (conclusion run) of
                     Inl e \<Rightarrow> Inl e
                   | Inr oc \<Rightarrow>
                       if oc = PASS then
                         (case make_client_status s run (ensure_aware (created_at run)) m1 m2 of
                            Inl e \<Rightarrow> Inl e
                          | Inr c \<Rightarrow>
                              fetch_client_statuses s cutoff runs (client_statuses @ [Status c]))
                       else
                         fetch_client_statuses s cutoff runs
                           (client_statuses @
                            [ProcessError
                               \<lparr>ResultProcessError.client_id = m1,
                                ResultProcessError.build_id = int_of_digits m2,
                                ResultProcessError.timestamp = ensure_aware (created_at run),
                                ResultProcessError.url = html_url run\<rparr>])))))"

subsection \<open>The Appveyor builds\<close>

text \<open>
  The list comprehension of lines 357 to 365: one \<^verbatim>\<open>AppveyorJob\<close> for each job of the
  build detail, in the order of the listing; the first status that is not known raises.
\<close>

fun make_jobs :: "int \<Rightarrow> RawJob list \<Rightarrow> error + AppveyorJob list" where
  "make_jobs bid [] = Inr []"
| "make_jobs bid (job # js) =
     (case from_appveyor_status (RawJob.status job) of
        Inl e \<Rightarrow> Inl e
      | Inr oc \<Rightarrow>
          (case make_jobs bid js of
             Inl e \<Rightarrow> Inl e
           | Inr rest \<Rightarrow>
               Inr (\<lparr>AppveyorJob.build_id = bid, AppveyorJob.id' = jobId job,
                     AppveyorJob.name = RawJob.name job, AppveyorJob.outcome = oc\<rparr> # rest)))"

text \<open>
  Lines 345 to 366: the request for the build detail, then the \<^verbatim>\<open>AppveyorBuild\<close>, whose
  arguments are evaluated in the order written.
\<close>

definition make_build :: "session \<Rightarrow> RawBuild \<Rightarrow> error + AppveyorBuild" where
  "make_build s build =
     (case build_jobs_of s (RawBuild.version build) of
        Inl e \<Rightarrow> Inl e
      | Inr js \<Rightarrow>
          (case from_appveyor_status (RawBuild.status build) of
             Inl e \<Rightarrow> Inl e
           | Inr oc \<Rightarrow>
               (case make_jobs (buildId build) js of
                  Inl e \<Rightarrow> Inl e
                | Inr joblist \<Rightarrow>
                    Inr \<lparr>AppveyorBuild.id' = buildId build,
                         AppveyorBuild.version = RawBuild.version build,
                         AppveyorBuild.timestamp = started build,
                         AppveyorBuild.outcome = oc,
                         AppveyorBuild.jobs = joblist\<rparr>)))"

text \<open>
  The body of the loop of lines 339 to 367 on the builds that one page of the history
  yields. The result says how the scan of the page ended: \<open>Stopped\<close> when the
  \<^verbatim>\<open>break\<close> was taken, \<open>Exhausted\<close> when the page ran out, with the list
  \<^verbatim>\<open>appveyor_builds\<close> at that point (the argument \<open>out\<close>).
\<close>

datatype 'a scan = Stopped 'a | Exhausted 'a

fun scan_builds ::
  "session \<Rightarrow> int \<Rightarrow> RawBuild list \<Rightarrow> AppveyorBuild list
     \<Rightarrow> error + AppveyorBuild list scan" where
  "scan_builds s cutoff [] out = Inr (Exhausted out)"
| "scan_builds s cutoff (build # builds) out =
     (case finished build of
        None \<Rightarrow> scan_builds s cutoff builds out
      | Some fin \<Rightarrow>
          (case le_cutoff fin cutoff of
             Inl e \<Rightarrow> Inl e
           | Inr True \<Rightarrow> Inr (Stopped out)
           | Inr False \<Rightarrow>
               (case make_build s build of
                  Inl e \<Rightarrow> Inl e
                | Inr b \<Rightarrow> scan_builds s cutoff builds (out @ [b]))))"

text \<open>
  The generator \<^verbatim>\<open>get_appveyor_builds\<close> under the loop that consumes it. The generator
  asks for a page, yields its builds one by one, and asks for the next page, from the
  last build of this one, only when the loop wants a build after the last of the page; it
  ends at the first page without builds. The history may never end, so the function
  takes the number of pages it may ask for, and \<open>None\<close> is that number used up.
\<close>

fun fetch_appveyor_builds ::
  "nat \<Rightarrow> session \<Rightarrow> int \<Rightarrow> int option \<Rightarrow> AppveyorBuild list
     \<Rightarrow> (error + AppveyorBuild list) option" where
  "fetch_appveyor_builds 0 s cutoff start out = None"
| "fetch_appveyor_builds (Suc fuel) s cutoff start out =
     (case history s start of
        Inl e \<Rightarrow> Some (Inl e)
      | Inr builds \<Rightarrow>
          if builds \<noteq> [] then
            (case scan_builds s cutoff builds out of
               Inl e \<Rightarrow> Some (Inl e)
             | Inr (Stopped acc) \<Rightarrow> Some (Inr acc)
             | Inr (Exhausted acc) \<Rightarrow>
                 fetch_appveyor_builds fuel s cutoff (Some (buildId (last builds))) acc)
          else Some (Inr out))"

section \<open>The tally as the specification words it\<close>

text \<open>
  The specification describes the tally without the counter: the outcomes of all jobs,
  flattened across the workflow runs, then for each client run the outcomes of its test
  mapping, or one \<open>ERROR\<close> for an error of the result processing, then the outcomes of
  all jobs of the Appveyor builds. \<open>counted_outcomes\<close> is that list, written from the
  specification's words; the theorems below compare the counter of the code with it.
\<close>

fun client_outcomes :: "ClientRun \<Rightarrow> Outcome list" where
  "client_outcomes (Status c) = map snd (tests c)"
| "client_outcomes (ProcessError e) = [ERROR]"

definition counted_outcomes :: "DailyStatus \<Rightarrow> Outcome list" where
  "counted_outcomes r =
     concat (map (\<lambda>w. map JobStatus.outcome (WorkflowStatus.jobs w)) (github_runs r))
     @ concat (map client_outcomes (client_runs r))
     @ concat (map (\<lambda>b. map AppveyorJob.outcome (AppveyorBuild.jobs b)) (appveyor_builds r))"

text \<open>
  \<open>tallies c xs\<close>: the dictionary \<open>c\<close> is a counter of the list \<open>xs\<close>. Its keys are the
  elements of \<open>xs\<close>, each once, and each key has the number of its occurrences, which is
  not zero.
\<close>

definition tallies :: "'a Counter \<Rightarrow> 'a list \<Rightarrow> bool" where
  "tallies c xs =
     (distinct (map fst c) \<and> fst ` set c = set xs \<and> 0 \<notin> snd ` set c
      \<and> (\<forall>k. dict_get c k 0 = count_list xs k))"

section \<open>Example reports\<close>

text \<open>
  Two reports on which the theorems below are run. In \<open>quiet_report\<close> a workflow run and
  a client run are there, but without any job or test, and the client \<^verbatim>\<open>beta\<close> and two
  workflows have no run. In \<open>small_report\<close> one job passed and the processing of the
  results of the client \<^verbatim>\<open>alpha\<close> failed.
\<close>

definition example_time :: datetime where
  "example_time = \<lparr>tz_aware = True, instant = 0, as_str = ''2021-03-05 06:00:00+00:00''\<rparr>"

definition quiet_report :: DailyStatus where
  "quiet_report =
     \<lparr>github_runs =
        [\<lparr>file' = ''build-macos.yaml'', WorkflowStatus.name = ''Build on macOS'',
          WorkflowStatus.build_id = 7, WorkflowStatus.url = ''https://example.org/7'',
          WorkflowStatus.timestamp = example_time, WorkflowStatus.outcome = PASS,
          WorkflowStatus.jobs = []\<rparr>],
      client_runs =
        [Status \<lparr>ClientStatus.client_id = ''alpha'', ClientStatus.build_id = 42,
                 ClientStatus.timestamp = example_time,
                 artifact_url = ''https://example.org/a'', tests = []\<rparr>],
      all_clients = {|''alpha'', ''beta''|},
      appveyor_builds = []\<rparr>"

definition small_report :: DailyStatus where
  "small_report =
     \<lparr>github_runs =
        [\<lparr>file' = ''build-macos.yaml'', WorkflowStatus.name = ''Build on macOS'',
          WorkflowStatus.build_id = 7, WorkflowStatus.url = ''https://example.org/7'',
          WorkflowStatus.timestamp = example_time, WorkflowStatus.outcome = PASS,
          WorkflowStatus.jobs =
            [\<lparr>JobStatus.name = ''build'', JobStatus.url = ''https://example.org/7/1'',
              JobStatus.timestamp = example_time, JobStatus.outcome = PASS\<rparr>]\<rparr>],
      client_runs =
        [ProcessError \<lparr>ResultProcessError.client_id = ''alpha'',
                       ResultProcessError.build_id = 42,
                       ResultProcessError.timestamp = example_time,
                       ResultProcessError.url = ''https://example.org/e''\<rparr>],
      all_clients = {|''alpha''|},
      appveyor_builds = []\<rparr>"

section \<open>The entries of the client section\<close>

text \<open>
  \<open>client_item seen cstatus\<close> is the text that one iteration of the loop of lines 103
  to 110 appends to \<^verbatim>\<open>body\<close> when the set \<^verbatim>\<open>seen\<close> is \<open>seen\<close> at its start: the list
  item of the client run, with the attribute \<^verbatim>\<open>id\<close> when the client is not in \<open>seen\<close>.
  It names the entries of the section in the theorems on the anchors.
\<close>

definition client_item :: "string set \<Rightarrow> ClientRun \<Rightarrow> string" where
  \<open>client_item seen cstatus =
     ''<li'' @ (if client_id_of cstatus \<notin> seen then '' id="'' @ client_id_of cstatus @ ''"''
                else [])
     @ ''>'' @ ClientRun_as_html cstatus @ ''</li>'' @ NL\<close>

text \<open>
  Client runs for the theorems on the anchors: an error of the result processing for the
  client \<^verbatim>\<open>alpha\<close>, then two runs of \<^verbatim>\<open>alpha\<close> and one of \<^verbatim>\<open>beta\<close>.
\<close>

definition alpha_error :: ResultProcessError where
  "alpha_error =
     \<lparr>ResultProcessError.client_id = ''alpha'', ResultProcessError.build_id = 41,
      ResultProcessError.timestamp = example_time,
      ResultProcessError.url = ''https://example.org/e''\<rparr>"

definition client_run :: "string \<Rightarrow> int \<Rightarrow> ClientStatus" where
  "client_run cid n =
     \<lparr>ClientStatus.client_id = cid, ClientStatus.build_id = n,
      ClientStatus.timestamp = example_time, artifact_url = ''https://example.org/a'',
      tests = [(''test'', PASS)]\<rparr>"

definition mixed_runs :: "ClientRun list" where
  "mixed_runs =
     [ProcessError alpha_error, Status (client_run ''alpha'' 42),
      Status (client_run ''alpha'' 43), Status (client_run ''beta'' 7)]"

section \<open>Example runs and builds of the fetchers\<close>

text \<open>
  A completed run on the branch \<^verbatim>\<open>result-alpha-42\<close>, created after the cutoff \<open>0\<close>, with
  the conclusion left open; PyGithub gives its creation time without time zone.
\<close>

definition result_run :: "string \<Rightarrow> GithubRun" where
  "result_run concl =
     \<lparr>GithubRun.status = ''completed'',
      created_at = \<lparr>tz_aware = False, instant = 100, as_str = ''2021-03-05 06:00:00''\<rparr>,
      conclusion = concl, head_branch = ''result-alpha-42'',
      html_url = ''https://example.org/run'', artifacts_url = ''https://example.org/art'',
      check_suite_id = 5\<rparr>"

text \<open>
  The builds made of a list of builds of the history, in order, up to the first that
  raises: what the loop appends for the builds it keeps.
\<close>

fun make_builds :: "session \<Rightarrow> RawBuild list \<Rightarrow> error + AppveyorBuild list" where
  "make_builds s [] = Inr []"
| "make_builds s (build # builds) =
     (case make_build s build of
        Inl e \<Rightarrow> Inl e
      | Inr b \<Rightarrow> (case make_builds s builds of Inl e \<Rightarrow> Inl e | Inr bs \<Rightarrow> Inr (b # bs)))"




section \<open>Classification of conclusions\<close>

text \<open>
  Claim C1: the hosted-workflow classifier maps \<^verbatim>\<open>timed_out\<close> to the Error outcome, and
  every recognised conclusion to the outcome of the fixed table. The other seven rows of
  the table hold in the code, but on \<^verbatim>\<open>timed_out\<close> the code names the enumeration member
  \<^verbatim>\<open>ERRROR\<close>, which does not exist: the call raises \<^verbatim>\<open>AttributeError\<close> and returns no
  outcome at all.
\<close>

theorem from_conclusion_timed_out_raises:
  "from_conclusion ''timed_out'' = Inl (AttributeError ''ERRROR'')
   \<and> from_conclusion ''timed_out'' \<noteq> Inr ERROR
   \<and> from_conclusion ''success'' = Inr PASS
   \<and> from_conclusion ''failure'' = Inr FAIL
   \<and> from_conclusion ''neutral'' = Inr INCOMPLETE
   \<and> from_conclusion ''action_required'' = Inr INCOMPLETE
   \<and> from_conclusion ''cancelled'' = Inr INCOMPLETE
   \<and> from_conclusion ''skipped'' = Inr INCOMPLETE
   \<and> from_conclusion ''stale'' = Inr INCOMPLETE"
  by (simp add: from_conclusion_def)

text \<open>
  Claim C2: a status string outside the vocabulary of its source is never given a default
  outcome. The hosted-workflow classifier raises the \<^verbatim>\<open>ValueError\<close> for every string
  that is not one of its eight conclusions, and the Appveyor classifier raises its
  \<^verbatim>\<open>ValueError\<close> for every string that is not one of its three statuses; in both cases
  the error carries the offending string.
\<close>

theorem unrecognized_status_raises:
  "(concl \<notin> {''success'', ''failure'', ''timed_out'', ''neutral'', ''action_required'',
               ''cancelled'', ''skipped'', ''stale''}
      \<longrightarrow> from_conclusion concl = Inl (UnknownConclusion concl))
   \<and> (st \<notin> {''success'', ''failed'', ''cancelled''}
      \<longrightarrow> from_appveyor_status st = Inl (UnknownAppveyorStatus st))"
  by (simp add: from_conclusion_def from_appveyor_status_def)

theorem unrecognized_status_raises_witness:
  "from_conclusion ''in_progress'' = Inl (UnknownConclusion ''in_progress'')
   \<and> from_appveyor_status ''failure'' = Inl (UnknownAppveyorStatus ''failure'')"
  using unrecognized_status_raises [of "''in_progress''" "''failure''"]
  by simp

section \<open>The counter is the tally of the counted outcomes\<close>

subsection \<open>Dictionaries\<close>

lemma dict_get_dict_set:
  "dict_get (dict_set d k v) k' z = (if k' = k then v else dict_get d k' z)"
  by (induction d) auto

lemma dict_set_map_fst:
  "map fst (dict_set d k v) = (if k \<in> fst ` set d then map fst d else map fst d @ [k])"
  by (induction d) (auto simp: rev_image_eqI)

lemma dict_set_keys:
  "fst ` set (dict_set d k v) = insert k (fst ` set d)"
proof -
  have "set (map fst (dict_set d k v)) = insert k (set (map fst d))"
    unfolding dict_set_map_fst by auto
  then show ?thesis by simp
qed

lemma dict_set_distinct:
  "distinct (map fst d) \<Longrightarrow> distinct (map fst (dict_set d k v))"
  unfolding dict_set_map_fst by auto

lemma dict_set_subset:
  "set (dict_set d k v) \<subseteq> insert (k, v) (set d)"
  by (induction d) (auto split: if_splits)

lemma dict_set_values:
  "snd ` set (dict_set d k v) \<subseteq> insert v (snd ` set d)"
  using dict_set_subset [of d k v] by force

lemma dict_get_absent:
  "k \<notin> fst ` set d \<Longrightarrow> dict_get d k z = z"
  by (induction d) auto

lemma dict_get_present:
  "distinct (map fst d) \<Longrightarrow> (k, v) \<in> set d \<Longrightarrow> dict_get d k z = v"
  by (induction d) (auto simp: rev_image_eqI)

subsection \<open>Counters\<close>

lemma tallies_Nil: "tallies [] []"
  by (simp add: tallies_def)

lemma tallies_add:
  assumes "tallies c xs" and "0 < n"
  shows "tallies (dict_set c x (n + dict_get c x 0)) (xs @ replicate n x)"
proof -
  have "0 \<notin> snd ` set (dict_set c x (n + dict_get c x 0))"
    using assms dict_set_values [of c x "n + dict_get c x 0"]
    by (auto simp: tallies_def)
  moreover have "count_list (replicate n x) k = (if k = x then n else 0)" for k
    by (induction n) auto
  ultimately show ?thesis
    using assms by (auto simp: tallies_def dict_set_keys dict_set_distinct dict_get_dict_set)
qed

lemma tallies_inc_fold:
  "tallies c xs \<Longrightarrow>
   tallies (foldl (\<lambda>c x. dict_set c x (dict_get c x 0 + 1)) c ys) (xs @ ys)"
proof (induction ys arbitrary: c xs)
  case Nil
  then show ?case by simp
next
  case (Cons y ys)
  have "tallies (dict_set c y (1 + dict_get c y 0)) (xs @ replicate 1 y)"
    using Cons.prems by (rule tallies_add) simp
  then have "tallies (dict_set c y (dict_get c y 0 + 1)) (xs @ [y])"
    by (simp add: add.commute)
  from Cons.IH [OF this] show ?case by simp
qed

lemma tallies_Counter_of: "tallies (Counter_of xs) xs"
  using tallies_inc_fold [OF tallies_Nil, of xs] by (simp add: Counter_of_def)

lemma tallies_cong:
  assumes "tallies c xs" and "\<And>k. count_list xs k = count_list ys k"
  shows "tallies c ys"
proof -
  have "set xs = set ys"
  proof (rule set_eqI)
    fix k
    have "k \<in> set xs \<longleftrightarrow> count_list xs k \<noteq> 0" by (simp add: count_list_0_iff)
    also have "\<dots> \<longleftrightarrow> count_list ys k \<noteq> 0" by (simp add: assms(2))
    also have "\<dots> \<longleftrightarrow> k \<in> set ys" by (simp add: count_list_0_iff)
    finally show "k \<in> set xs \<longleftrightarrow> k \<in> set ys" .
  qed
  then show ?thesis using assms by (simp add: tallies_def)
qed

lemma tallies_update_fold:
  "tallies c xs \<Longrightarrow> 0 \<notin> snd ` set items \<Longrightarrow>
   tallies (foldl (\<lambda>c (elem, count). dict_set c elem (count + dict_get c elem 0)) c items)
     (xs @ concat (map (\<lambda>(k, n). replicate n k) items))"
proof (induction items arbitrary: c xs)
  case Nil
  then show ?case by simp
next
  case (Cons item items)
  obtain k n where item: "item = (k, n)" by (cases item)
  with Cons.prems have "0 < n" by auto
  with Cons.prems(1) have "tallies (dict_set c k (n + dict_get c k 0)) (xs @ replicate n k)"
    by (rule tallies_add)
  moreover from Cons.prems have "0 \<notin> snd ` set items" by auto
  ultimately show ?case using Cons.IH [of "dict_set c k (n + dict_get c k 0)" "xs @ replicate n k"]
    by (simp add: item)
qed

lemma count_list_replicate:
  "count_list (replicate n x) k = (if k = x then n else 0)"
  by (induction n) auto

lemma count_list_expand:
  "distinct (map fst d) \<Longrightarrow>
   count_list (concat (map (\<lambda>(k, n). replicate n k) d)) k = dict_get d k 0"
proof (induction d)
  case Nil
  then show ?case by simp
next
  case (Cons p d)
  obtain k' n where p: "p = (k', n)" by (cases p)
  show ?case
  proof (cases "k' = k")
    case True
    with Cons.prems p have "k \<notin> fst ` set d" by auto
    then have "dict_get d k 0 = 0" by (rule dict_get_absent)
    with Cons p True show ?thesis by (simp add: count_list_replicate)
  next
    case False
    with Cons p show ?thesis by (simp add: count_list_replicate)
  qed
qed

lemma tallies_Counter_update:
  assumes "tallies c xs" and "tallies d ys"
  shows "tallies (Counter_update c d) (xs @ ys)"
proof -
  from assms(2) have d: "distinct (map fst d)" "0 \<notin> snd ` set d"
    and cnt: "\<And>k. dict_get d k 0 = count_list ys k"
    by (simp_all add: tallies_def)
  have "tallies (Counter_update c d) (xs @ concat (map (\<lambda>(k, n). replicate n k) d))"
    unfolding Counter_update_def using assms(1) d(2) by (rule tallies_update_fold)
  then show ?thesis
    by (rule tallies_cong) (simp add: count_list_expand [OF d(1)] cnt)
qed

lemma tallies_empty_iff: "tallies c xs \<Longrightarrow> c = [] \<longleftrightarrow> xs = []"
  by (auto simp: tallies_def)

subsection \<open>The counter of the three loops\<close>

lemma github_loop_tallies:
  "tallies q xs \<Longrightarrow>
   tallies (snd (foldl github_step (b, q) runs))
     (xs @ concat (map (\<lambda>w. map JobStatus.outcome (WorkflowStatus.jobs w)) runs))"
proof (induction runs arbitrary: b q xs)
  case Nil
  then show ?case by simp
next
  case (Cons w runs)
  have "tallies (Counter_update q (WorkflowStatus_get_summary w))
          (xs @ map JobStatus.outcome (WorkflowStatus.jobs w))"
    unfolding WorkflowStatus_get_summary_def
    using Cons.prems tallies_Counter_of by (rule tallies_Counter_update)
  from Cons.IH [OF this] show ?case by (simp add: github_step_def)
qed

lemma github_section_tallies:
  assumes "tallies q xs"
  shows "tallies (snd (github_section runs (b, q)))
     (xs @ concat (map (\<lambda>w. map JobStatus.outcome (WorkflowStatus.jobs w)) runs))"
  using assms github_loop_tallies [OF assms, of b runs] by (simp add: github_section_def)

lemma ClientRun_get_summary_tallies:
  "tallies (ClientRun_get_summary c) (client_outcomes c)"
  by (cases c)
    (simp_all add: ClientStatus_get_summary_def ResultProcessError_get_summary_def
       tallies_Counter_of)

lemma client_loop_tallies:
  "tallies q xs \<Longrightarrow>
   tallies (snd (snd (foldl client_step (b, seen, q) runs)))
     (xs @ concat (map client_outcomes runs))"
proof (induction runs arbitrary: b seen q xs)
  case Nil
  then show ?case by simp
next
  case (Cons c runs)
  have "tallies (Counter_update q (ClientRun_get_summary c)) (xs @ client_outcomes c)"
    using Cons.prems ClientRun_get_summary_tallies by (rule tallies_Counter_update)
  from Cons.IH [OF this] show ?case by (simp add: client_step_def)
qed

lemma clients_section_tallies:
  assumes "tallies q xs"
  shows "tallies (snd (clients_section runs (b, q))) (xs @ concat (map client_outcomes runs))"
  using assms client_loop_tallies [OF assms, of b "{}" runs]
  by (auto simp: clients_section_def split: prod.splits)

lemma appveyor_loop_tallies:
  "tallies q xs \<Longrightarrow>
   tallies (snd (foldl appveyor_step (b, q) builds))
     (xs @ concat (map (\<lambda>b. map AppveyorJob.outcome (AppveyorBuild.jobs b)) builds))"
proof (induction builds arbitrary: b q xs)
  case Nil
  then show ?case by simp
next
  case (Cons x builds)
  have "tallies (Counter_update q (AppveyorBuild_get_summary x))
          (xs @ map AppveyorJob.outcome (AppveyorBuild.jobs x))"
    unfolding AppveyorBuild_get_summary_def
    using Cons.prems tallies_Counter_of by (rule tallies_Counter_update)
  from Cons.IH [OF this] show ?case by (simp add: appveyor_step_def)
qed

lemma appveyor_section_tallies:
  assumes "tallies q xs"
  shows "tallies (snd (appveyor_section builds (b, q)))
     (xs @ concat (map (\<lambda>b. map AppveyorJob.outcome (AppveyorBuild.jobs b)) builds))"
  using assms appveyor_loop_tallies [OF assms, of b builds] by (simp add: appveyor_section_def)

lemma render_sections_tallies:
  "tallies (snd (render_sections r)) (counted_outcomes r)"
proof -
  obtain b1 q1 where s1: "github_section (github_runs r)
      (''<ul>'' @ NL @ ''<li><p>GitHub:</p>'' @ NL @ ''<ul>'' @ NL, []) = (b1, q1)"
    by (cases "github_section (github_runs r)
      (''<ul>'' @ NL @ ''<li><p>GitHub:</p>'' @ NL @ ''<ul>'' @ NL, [])")
  obtain b2 q2 where s2: "clients_section (client_runs r)
             (b1 @ ''</ul>'' @ NL @ ''</li>'' @ NL @ ''<li><p>Local Clients:</p>'' @ NL
              @ ''<ul>'' @ NL, q1) = (b2, q2)"
    by (cases "clients_section (client_runs r)
             (b1 @ ''</ul>'' @ NL @ ''</li>'' @ NL @ ''<li><p>Local Clients:</p>'' @ NL
              @ ''<ul>'' @ NL, q1)")
  obtain b3 q3 where s3: "appveyor_section (appveyor_builds r)
             (b2 @ ''</ul>'' @ NL @ ''</li>'' @ NL @ ''<li><p>Appveyor Builds:</p>'' @ NL
              @ ''<ul>'' @ NL, q2) = (b3, q3)"
    by (cases "appveyor_section (appveyor_builds r)
             (b2 @ ''</ul>'' @ NL @ ''</li>'' @ NL @ ''<li><p>Appveyor Builds:</p>'' @ NL
              @ ''<ul>'' @ NL, q2)")
  have "tallies q1 ([] @ concat (map (\<lambda>w. map JobStatus.outcome (WorkflowStatus.jobs w)) (github_runs r)))"
    using github_section_tallies [OF tallies_Nil, of "github_runs r"] s1
    by (metis snd_conv)
  from clients_section_tallies [OF this, of "client_runs r"] s2
  have "tallies q2 (([] @ concat (map (\<lambda>w. map JobStatus.outcome (WorkflowStatus.jobs w)) (github_runs r)))
     @ concat (map client_outcomes (client_runs r)))"
    by (metis snd_conv)
  from appveyor_section_tallies [OF this, of "appveyor_builds r"] s3
  have "tallies q3 (counted_outcomes r)"
    unfolding counted_outcomes_def by (metis snd_conv append_Nil append_assoc)
  moreover have "snd (render_sections r) = q3"
    using s1 s2 s3 by (simp add: render_sections_def)
  ultimately show ?thesis by simp
qed

text \<open>
  Claim C3: the tally behind the subject line counts the outcomes of all jobs of all
  workflow runs, of all test entries of all client runs, one \<open>ERROR\<close> for each error of
  the result processing, and the outcomes of all Appveyor jobs, and nothing else: the
  counter \<^verbatim>\<open>qtys\<close> has each outcome at most once, and it has the entry \<open>(oc, n)\<close> exactly
  when \<open>n\<close> is the number of occurrences of \<open>oc\<close> in that list and is not zero. The
  subject is made from this counter. The outcome of a run itself is not counted: a
  workflow run with the outcome \<open>PASS\<close> and two jobs with the outcomes \<open>PASS\<close> and
  \<open>FAIL\<close> has the summary \<open>{PASS: 1, FAIL: 1}\<close>, and so has the report of that run alone.
\<close>

theorem tally_counts_jobs_tests_and_errors:
  "distinct (map fst (snd (render_sections r)))
   \<and> ((oc, n) \<in> set (snd (render_sections r))
        \<longleftrightarrow> 0 < n \<and> n = count_list (counted_outcomes r) oc)
   \<and> fst (get_subject_body r) = make_subject r (snd (render_sections r))
   \<and> WorkflowStatus_get_summary
        \<lparr>file' = f, WorkflowStatus.name = nm, WorkflowStatus.build_id = i,
         WorkflowStatus.url = u, WorkflowStatus.timestamp = t, WorkflowStatus.outcome = PASS,
         WorkflowStatus.jobs = [j1\<lparr>JobStatus.outcome := PASS\<rparr>, j2\<lparr>JobStatus.outcome := FAIL\<rparr>]\<rparr>
       = [(PASS, 1), (FAIL, 1)]
   \<and> snd (render_sections
        \<lparr>github_runs =
           [\<lparr>file' = f, WorkflowStatus.name = nm, WorkflowStatus.build_id = i,
             WorkflowStatus.url = u, WorkflowStatus.timestamp = t,
             WorkflowStatus.outcome = PASS,
             WorkflowStatus.jobs =
               [j1\<lparr>JobStatus.outcome := PASS\<rparr>, j2\<lparr>JobStatus.outcome := FAIL\<rparr>]\<rparr>],
         client_runs = [], all_clients = cs, appveyor_builds = []\<rparr>)
       = [(PASS, 1), (FAIL, 1)]"
proof -
  let ?q = "snd (render_sections r)"
  have t: "tallies ?q (counted_outcomes r)" by (rule render_sections_tallies)
  then have d: "distinct (map fst ?q)" by (simp add: tallies_def)
  have "(oc, n) \<in> set ?q \<longleftrightarrow> 0 < n \<and> n = count_list (counted_outcomes r) oc"
  proof
    assume m: "(oc, n) \<in> set ?q"
    with d have "dict_get ?q oc 0 = n" by (rule dict_get_present)
    with t have n: "n = count_list (counted_outcomes r) oc" by (simp add: tallies_def)
    from m have "n \<in> snd ` set ?q" by force
    moreover from t have "0 \<notin> snd ` set ?q" by (simp add: tallies_def)
    ultimately have "n \<noteq> 0" by metis
    with n show "0 < n \<and> n = count_list (counted_outcomes r) oc" by simp
  next
    assume a: "0 < n \<and> n = count_list (counted_outcomes r) oc"
    then have "count_list (counted_outcomes r) oc \<noteq> 0" by simp
    then have "oc \<in> set (counted_outcomes r)" by (simp add: count_list_0_iff)
    with t have "oc \<in> fst ` set ?q" by (simp add: tallies_def)
    then obtain m where m: "(oc, m) \<in> set ?q" by force
    with d have "dict_get ?q oc 0 = m" by (rule dict_get_present)
    with t a have "m = n" by (simp add: tallies_def)
    with m show "(oc, n) \<in> set ?q" by simp
  qed
  moreover have "fst (get_subject_body r) = make_subject r ?q"
    by (simp add: get_subject_body_def Let_def split: prod.splits)
  moreover have "WorkflowStatus_get_summary
        \<lparr>file' = f, WorkflowStatus.name = nm, WorkflowStatus.build_id = i,
         WorkflowStatus.url = u, WorkflowStatus.timestamp = t, WorkflowStatus.outcome = PASS,
         WorkflowStatus.jobs = [j1\<lparr>JobStatus.outcome := PASS\<rparr>, j2\<lparr>JobStatus.outcome := FAIL\<rparr>]\<rparr>
       = [(PASS, 1), (FAIL, 1)]"
    by (simp add: WorkflowStatus_get_summary_def Counter_of_def)
  moreover have "snd (render_sections
        \<lparr>github_runs =
           [\<lparr>file' = f, WorkflowStatus.name = nm, WorkflowStatus.build_id = i,
             WorkflowStatus.url = u, WorkflowStatus.timestamp = t,
             WorkflowStatus.outcome = PASS,
             WorkflowStatus.jobs =
               [j1\<lparr>JobStatus.outcome := PASS\<rparr>, j2\<lparr>JobStatus.outcome := FAIL\<rparr>]\<rparr>],
         client_runs = [], all_clients = cs, appveyor_builds = []\<rparr>)
       = [(PASS, 1), (FAIL, 1)]"
    by (simp add: render_sections_def github_section_def github_step_def
          clients_section_def appveyor_section_def WorkflowStatus_get_summary_def
          Counter_of_def Counter_update_def)
  ultimately show ?thesis using d by blast
qed

section \<open>The report of nothing\<close>

text \<open>
  Claim C8: for the report without workflow runs, client runs and Appveyor builds,
  whatever the known clients, the subject is \<^verbatim>\<open>datalad/git-annex daily summary: NOTHING\<close>
  and each of the three sections of the body holds its placeholder, \<^verbatim>\<open>[no runs]\<close>,
  \<^verbatim>\<open>[no runs]\<close> and \<^verbatim>\<open>[no builds]\<close>; the body is the page below.
\<close>

theorem empty_report_subject_and_body:
  \<open>get_subject_body
     \<lparr>github_runs = [], client_runs = [], all_clients = cs, appveyor_builds = []\<rparr>
   = (''datalad/git-annex daily summary: NOTHING'',
      ''<!DOCTYPE html>'' @ NL
      @ ''<html lang="en">'' @ NL
      @ ''<head>'' @ NL
      @ ''<meta http-equiv="Content-Type" content="text/html; charset=utf-8">'' @ NL
      @ ''<title>datalad/git-annex daily summary: NOTHING</title>'' @ NL
      @ ''</head>'' @ NL
      @ ''<body>'' @ NL
      @ ''<ul>'' @ NL
      @ ''<li><p>GitHub:</p>'' @ NL
      @ ''<ul>'' @ NL
      @ ''<li>[no runs]</li>'' @ NL
      @ ''</ul>'' @ NL
      @ ''</li>'' @ NL
      @ ''<li><p>Local Clients:</p>'' @ NL
      @ ''<ul>'' @ NL
      @ ''<li>[no runs]</li>'' @ NL
      @ ''</ul>'' @ NL
      @ ''</li>'' @ NL
      @ ''<li><p>Appveyor Builds:</p>'' @ NL
      @ ''<ul>'' @ NL
      @ ''<li>[no builds]</li>'' @ NL
      @ ''</ul>'' @ NL
      @ ''</li>'' @ NL
      @ ''</ul>'' @ NL
      @ ''</body>'' @ NL
      @ ''</html>'')\<close>
  by (simp add: get_subject_body_def render_sections_def github_section_def
        clients_section_def appveyor_section_def make_subject_def WORKFLOW_REPO_def
        html_page_def Let_def)

section \<open>The subject line\<close>

lemma qtys_empty_iff:
  "snd (render_sections r) = [] \<longleftrightarrow> counted_outcomes r = []"
  using render_sections_tallies [of r] by (rule tallies_empty_iff)

lemma fst_get_subject_body:
  "fst (get_subject_body r) = make_subject r (snd (render_sections r))"
  by (simp add: get_subject_body_def Let_def split: prod.splits)

text \<open>
  Claim C9: whether the subject says \<^verbatim>\<open>NOTHING\<close> depends on the tally alone. When no
  workflow run has a job, every client run is a \<^verbatim>\<open>ClientStatus\<close> without tests (so there
  is no error of the result processing) and no Appveyor build has a job, the subject is
  the \<^verbatim>\<open>NOTHING\<close> subject, with no count of absent sources after it, whatever runs are
  there and whatever sources are absent. In \<open>quiet_report\<close> three sources are absent, and
  the body has the items of its two runs.
\<close>

theorem nothing_subject_depends_on_tally_only:
  assumes "\<forall>w \<in> set (github_runs r). WorkflowStatus.jobs w = []"
    and "\<forall>c \<in> set (client_runs r). \<exists>s. c = Status s \<and> tests s = []"
    and "\<forall>b \<in> set (appveyor_builds r). AppveyorBuild.jobs b = []"
  shows "fst (get_subject_body r) = ''datalad/git-annex daily summary: NOTHING''"
proof -
  have "concat (map (\<lambda>w. map JobStatus.outcome (WorkflowStatus.jobs w)) (github_runs r)) = []"
    using assms(1) by simp
  moreover have "concat (map client_outcomes (client_runs r)) = []"
    using assms(2) by auto
  moreover have
    "concat (map (\<lambda>b. map AppveyorJob.outcome (AppveyorBuild.jobs b)) (appveyor_builds r)) = []"
    using assms(3) by simp
  ultimately have "counted_outcomes r = []" by (simp add: counted_outcomes_def)
  then have "snd (render_sections r) = []" by (simp add: qtys_empty_iff)
  then show ?thesis by (simp add: fst_get_subject_body make_subject_def WORKFLOW_REPO_def)
qed

theorem nothing_subject_depends_on_tally_only_witness:
  \<open>fst (get_subject_body quiet_report) = ''datalad/git-annex daily summary: NOTHING''
   \<and> absent quiet_report = 3
   \<and> fst (render_sections quiet_report)
     = ''<ul>'' @ NL @ ''<li><p>GitHub:</p>'' @ NL @ ''<ul>'' @ NL
       @ ''<li>'' @ WorkflowStatus_as_html (hd (github_runs quiet_report)) @ ''</li>'' @ NL
       @ ''</ul>'' @ NL @ ''</li>'' @ NL @ ''<li><p>Local Clients:</p>'' @ NL @ ''<ul>'' @ NL
       @ ''<li id="alpha">'' @ ClientRun_as_html (hd (client_runs quiet_report)) @ ''</li>'' @ NL
       @ ''</ul>'' @ NL @ ''</li>'' @ NL @ ''<li><p>Appveyor Builds:</p>'' @ NL @ ''<ul>'' @ NL
       @ ''<li>[no builds]</li>'' @ NL @ ''</ul>'' @ NL @ ''</li>'' @ NL @ ''</ul>''\<close>
proof -
  have 1: "\<forall>w \<in> set (github_runs quiet_report). WorkflowStatus.jobs w = []"
    by (simp add: quiet_report_def)
  have 2: "\<forall>c \<in> set (client_runs quiet_report). \<exists>s. c = Status s \<and> tests s = []"
    by (simp add: quiet_report_def)
  have 3: "\<forall>b \<in> set (appveyor_builds quiet_report). AppveyorBuild.jobs b = []"
    by (simp add: quiet_report_def)
  have "absent quiet_report = 3" by code_simp
  moreover have \<open>fst (render_sections quiet_report)
     = ''<ul>'' @ NL @ ''<li><p>GitHub:</p>'' @ NL @ ''<ul>'' @ NL
       @ ''<li>'' @ WorkflowStatus_as_html (hd (github_runs quiet_report)) @ ''</li>'' @ NL
       @ ''</ul>'' @ NL @ ''</li>'' @ NL @ ''<li><p>Local Clients:</p>'' @ NL @ ''<ul>'' @ NL
       @ ''<li id="alpha">'' @ ClientRun_as_html (hd (client_runs quiet_report)) @ ''</li>'' @ NL
       @ ''</ul>'' @ NL @ ''</li>'' @ NL @ ''<li><p>Appveyor Builds:</p>'' @ NL @ ''<ul>'' @ NL
       @ ''<li>[no builds]</li>'' @ NL @ ''</ul>'' @ NL @ ''</li>'' @ NL @ ''</ul>''\<close>
    by (simp add: render_sections_def github_section_def github_step_def clients_section_def
          client_step_def appveyor_section_def quiet_report_def split: prod.splits)
  ultimately show ?thesis using nothing_subject_depends_on_tally_only [OF 1 2 3] by simp
qed

subsection \<open>The count of absent sources\<close>

lemma absent_card:
  "absent r = card {w \<in> set WORKFLOWS. \<forall>run \<in> set (github_runs r). file' run \<noteq> w}
            + card {c. c |\<in>| all_clients r \<and> (\<forall>cr \<in> set (client_runs r). client_id_of cr \<noteq> c)}"
proof -
  have "fset (missing_workflows r) = {w \<in> set WORKFLOWS. \<forall>run \<in> set (github_runs r). file' run \<noteq> w}"
    by (auto simp: missing_workflows_def fset_of_list.rep_eq)
  moreover have "fset (missing_clients r)
      = {c. c |\<in>| all_clients r \<and> (\<forall>cr \<in> set (client_runs r). client_id_of cr \<noteq> c)}"
    by (auto simp: missing_clients_def fset_of_list.rep_eq)
  ultimately show ?thesis by (simp add: absent_def fcard.rep_eq)
qed

lemma absent_new_client:
  assumes "c |\<notin>| all_clients r" and "\<forall>cr \<in> set (client_runs r). client_id_of cr \<noteq> c"
  shows "absent (r\<lparr>all_clients := finsert c (all_clients r)\<rparr>) = absent r + 1"
proof -
  have "c |\<notin>| fset_of_list (map client_id_of (client_runs r))"
    using assms(2) by (auto simp: fset_of_list.rep_eq)
  then have "missing_clients (r\<lparr>all_clients := finsert c (all_clients r)\<rparr>)
      = finsert c (missing_clients r)"
    by (auto simp: missing_clients_def)
  moreover have "c |\<notin>| missing_clients r" using assms(1) by (simp add: missing_clients_def)
  moreover have "missing_workflows (r\<lparr>all_clients := finsert c (all_clients r)\<rparr>)
      = missing_workflows r"
    by (simp add: missing_workflows_def)
  ultimately show ?thesis by (simp add: absent_def fcard_finsert_disjoint)
qed

lemma render_sections_all_clients:
  "render_sections (r\<lparr>all_clients := cs\<rparr>) = render_sections r"
  by (simp add: render_sections_def)

lemma counted_outcomes_all_clients:
  "counted_outcomes (r\<lparr>all_clients := cs\<rparr>) = counted_outcomes r"
  by (simp add: counted_outcomes_def)

text \<open>
  Claim C4: when the tally is not empty, the subject is the summary of the counter,
  followed by \<^verbatim>\<open>, N ABSENT\<close> when the number \<open>N\<close> of absent sources is not zero. That
  number is the number of the configured workflow files that no workflow run refers to
  plus the number of the known clients that no element of \<^verbatim>\<open>client_runs\<close> refers to. A
  new known client without any such element raises it by exactly one, and the subject
  then ends with the raised number.
\<close>

theorem subject_absence_count:
  assumes "counted_outcomes r \<noteq> []"
  shows "fst (get_subject_body r)
           = WORKFLOW_REPO @ '' daily summary: ''
             @ join '', '' (map (\<lambda>(oc, n). str_nat n @ '' '' @ Outcome_value oc)
                              (snd (render_sections r)))
             @ (if absent r = 0 then [] else '', '' @ str_nat (absent r) @ '' ABSENT'')
         \<and> absent r
           = card {w \<in> set WORKFLOWS. \<forall>run \<in> set (github_runs r). file' run \<noteq> w}
             + card {c. c |\<in>| all_clients r
                        \<and> (\<forall>cr \<in> set (client_runs r). client_id_of cr \<noteq> c)}
         \<and> (c |\<notin>| all_clients r \<and> (\<forall>cr \<in> set (client_runs r). client_id_of cr \<noteq> c)
              \<longrightarrow> absent (r\<lparr>all_clients := finsert c (all_clients r)\<rparr>) = absent r + 1
                \<and> fst (get_subject_body (r\<lparr>all_clients := finsert c (all_clients r)\<rparr>))
                  = WORKFLOW_REPO @ '' daily summary: ''
                    @ join '', '' (map (\<lambda>(oc, n). str_nat n @ '' '' @ Outcome_value oc)
                                     (snd (render_sections r)))
                    @ '', '' @ str_nat (absent r + 1) @ '' ABSENT'')"
proof -
  have subj: "fst (get_subject_body r')
           = WORKFLOW_REPO @ '' daily summary: ''
             @ join '', '' (map (\<lambda>(oc, n). str_nat n @ '' '' @ Outcome_value oc)
                              (snd (render_sections r')))
             @ (if absent r' = 0 then [] else '', '' @ str_nat (absent r') @ '' ABSENT'')"
    if "counted_outcomes r' \<noteq> []" for r'
  proof -
    from that have "snd (render_sections r') \<noteq> []" by (simp add: qtys_empty_iff)
    then show ?thesis by (simp add: fst_get_subject_body make_subject_def Let_def)
  qed
  let ?r' = "r\<lparr>all_clients := finsert c (all_clients r)\<rparr>"
  have "fst (get_subject_body ?r')
                  = WORKFLOW_REPO @ '' daily summary: ''
                    @ join '', '' (map (\<lambda>(oc, n). str_nat n @ '' '' @ Outcome_value oc)
                                     (snd (render_sections r)))
                    @ '', '' @ str_nat (absent r + 1) @ '' ABSENT''"
    if "absent ?r' = absent r + 1"
  proof -
    have "counted_outcomes ?r' \<noteq> []" using assms by (simp add: counted_outcomes_all_clients)
    from subj [OF this] that show ?thesis by (simp add: render_sections_all_clients)
  qed
  with subj [OF assms] absent_card [of r] absent_new_client [of c r] show ?thesis by blast
qed

theorem subject_absence_count_witness:
  "fst (get_subject_body small_report) = ''datalad/git-annex daily summary: 1 PASSED, 1 ERRORED, 2 ABSENT''
   \<and> absent small_report = 2
   \<and> absent (small_report\<lparr>all_clients := finsert ''beta'' (all_clients small_report)\<rparr>) = 3
   \<and> fst (get_subject_body (small_report\<lparr>all_clients := finsert ''beta'' (all_clients small_report)\<rparr>))
     = ''datalad/git-annex daily summary: 1 PASSED, 1 ERRORED, 3 ABSENT''"
proof -
  have 1: "counted_outcomes small_report \<noteq> []" by (simp add: counted_outcomes_def small_report_def)
  have 2: "''beta'' |\<notin>| all_clients small_report \<and> (\<forall>cr \<in> set (client_runs small_report). client_id_of cr \<noteq> ''beta'')"
    by (simp add: small_report_def)
  have 3: "absent small_report = 2" by code_simp
  have 4: "snd (render_sections small_report) = [(PASS, 1), (ERROR, 1)]" by code_simp
  have 5: "str_nat 1 = ''1''" "str_nat 2 = ''2''" "str_nat 3 = ''3''" by code_simp+
  show ?thesis
    using subject_absence_count [OF 1, of "''beta''"] 2 3 4 5
    by (simp add: WORKFLOW_REPO_def)
qed

section \<open>The anchors of the client section\<close>

lemma client_step_body:
  "fst (client_step (b, seen, q) c) = b @ client_item seen c"
  by (simp add: client_step_def client_item_def)

lemma client_step_seen:
  "fst (snd (client_step (b, seen, q) c)) = insert (client_id_of c) seen"
  by (auto simp: client_step_def)

lemma client_loop_seen:
  "fst (snd (foldl client_step (b, seen, q) runs)) = seen \<union> client_id_of ` set runs"
proof (induction runs arbitrary: b seen q)
  case Nil
  then show ?case by simp
next
  case (Cons c runs)
  obtain b' seen' q' where st: "client_step (b, seen, q) c = (b', seen', q')"
    by (cases "client_step (b, seen, q) c")
  then have "seen' = insert (client_id_of c) seen"
    using client_step_seen [of b seen q c] by simp
  with Cons.IH [of b' seen' q'] st show ?case by simp
qed

lemma client_loop_snoc_body:
  "fst (foldl client_step (b, seen, q) (runs @ [c]))
     = fst (foldl client_step (b, seen, q) runs)
       @ client_item (seen \<union> client_id_of ` set runs) c"
proof -
  obtain b' seen' q' where st: "foldl client_step (b, seen, q) runs = (b', seen', q')"
    by (cases "foldl client_step (b, seen, q) runs")
  then have "seen' = seen \<union> client_id_of ` set runs"
    using client_loop_seen [of b seen q runs] by simp
  with st show ?thesis by (simp add: client_step_body)
qed

lemma client_loop_take_Suc:
  assumes "j < length runs"
  shows "fst (foldl client_step (b, {}, q) (take (Suc j) runs))
     = fst (foldl client_step (b, {}, q) (take j runs))
       @ client_item (client_id_of ` set (take j runs)) (runs ! j)"
proof -
  have "take (Suc j) runs = take j runs @ [runs ! j]"
    using assms by (rule take_Suc_conv_app_nth)
  then show ?thesis using client_loop_snoc_body [of b "{}" q "take j runs" "runs ! j"] by simp
qed

lemma client_loop_body:
  "fst (foldl client_step (b, {}, q) runs)
     = b @ concat (map (\<lambda>i. client_item (client_id_of ` set (take i runs)) (runs ! i))
                      [0..<length runs])"
proof (induction runs rule: rev_induct)
  case Nil
  then show ?case by simp
next
  case (snoc c runs)
  let ?item = "\<lambda>rs i. client_item (client_id_of ` set (take i rs)) (rs ! i)"
  have old: "map (?item (runs @ [c])) [0..<length runs] = map (?item runs) [0..<length runs]"
    by (rule map_cong) (simp_all add: nth_append)
  have new: "?item (runs @ [c]) (length runs) = client_item (client_id_of ` set runs) c"
    by simp
  have "fst (foldl client_step (b, {}, q) (runs @ [c]))
      = fst (foldl client_step (b, {}, q) runs) @ client_item (client_id_of ` set runs) c"
    using client_loop_snoc_body [of b "{}" q runs c] by simp
  also have "\<dots> = b @ concat (map (?item runs) [0..<length runs])
      @ client_item (client_id_of ` set runs) c"
    by (simp only: snoc.IH append_assoc)
  also have "\<dots> = b @ concat (map (?item (runs @ [c])) ([0..<length runs] @ [length runs]))"
    by (simp only: map_append concat_append old new list.map concat.simps append_Nil2)
  also have "[0..<length runs] @ [length runs] = [0..<length (runs @ [c])]"
    by simp
  finally show ?case .
qed

lemma clients_section_body:
  "fst (clients_section runs (b, q))
     = (if runs = [] then b @ ''<li>[no runs]</li>'' @ NL
        else fst (foldl client_step (b, {}, q) runs))"
  by (simp add: clients_section_def split: prod.splits)

lemma first_occurrence_unique:
  assumes "c \<in> client_id_of ` set runs"
  shows "\<exists>!i. i < length runs \<and> client_id_of (runs ! i) = c
              \<and> c \<notin> client_id_of ` set (take i runs)"
proof -
  let ?P = "\<lambda>i. i < length runs \<and> client_id_of (runs ! i) = c"
  from assms obtain i0 where "?P i0" by (auto simp: in_set_conv_nth)
  define k where "k = (LEAST i. ?P i)"
  have k: "?P k" unfolding k_def using \<open>?P i0\<close> by (rule LeastI)
  have least: "\<not> ?P j" if "j < k" for j
    using that unfolding k_def by (rule not_less_Least)
  have earlier: "c \<in> client_id_of ` set (take m runs)"
    if "j < m" and "?P j" for j m
  proof -
    from that have "j < length (take m runs)" by simp
    then have "take m runs ! j \<in> set (take m runs)" by (rule nth_mem)
    with that show ?thesis by force
  qed
  have notin: "c \<notin> client_id_of ` set (take k runs)"
  proof
    assume "c \<in> client_id_of ` set (take k runs)"
    then obtain j where j: "j < length (take k runs)" "client_id_of (take k runs ! j) = c"
      by (auto simp: in_set_conv_nth)
    then have "j < k" "?P j" by simp_all
    with least show False by blast
  qed
  show ?thesis
  proof (rule ex1I [of _ k])
    show "k < length runs \<and> client_id_of (runs ! k) = c
          \<and> c \<notin> client_id_of ` set (take k runs)"
      using k notin by simp
  next
    fix i
    assume i: "i < length runs \<and> client_id_of (runs ! i) = c
          \<and> c \<notin> client_id_of ` set (take i runs)"
    show "i = k"
    proof (rule ccontr)
      assume "i \<noteq> k"
      then consider "i < k" | "k < i" by linarith
      then show False
      proof cases
        case 1
        with least i show False by blast
      next
        case 2
        from earlier [OF 2 k] i show False by blast
      qed
    qed
  qed
qed



text \<open>
  Claim C10: the set \<^verbatim>\<open>seen\<close> is one for both classes of entries. The section is the
  concatenation of the items of its entries, the item of an entry has the attribute
  \<^verbatim>\<open>id\<close> exactly when no earlier entry, of either class, has the same client identifier,
  and for every client identifier of the sequence exactly one entry is in that case. So
  a \<^verbatim>\<open>ClientStatus\<close> that comes after a \<^verbatim>\<open>ResultProcessError\<close> of the same client is
  rendered without anchor.
\<close>

theorem anchor_goes_to_first_entry_of_client:
  \<open>fst (clients_section runs (body, qtys))
     = body @ (if runs = [] then ''<li>[no runs]</li>'' @ NL
               else concat (map (\<lambda>i. client_item (client_id_of ` set (take i runs)) (runs ! i))
                              [0..<length runs]))
   \<and> client_item seen c
     = (if client_id_of c \<in> seen then ''<li>'' @ ClientRun_as_html c @ ''</li>'' @ NL
        else ''<li id="'' @ client_id_of c @ ''">'' @ ClientRun_as_html c @ ''</li>'' @ NL)
   \<and> (x \<in> client_id_of ` set runs
        \<longrightarrow> (\<exists>!i. i < length runs \<and> client_id_of (runs ! i) = x
                   \<and> x \<notin> client_id_of ` set (take i runs)))
   \<and> fst (clients_section
            [ProcessError e,
             Status (s\<lparr>ClientStatus.client_id := ResultProcessError.client_id e\<rparr>)]
            (body, qtys))
     = body @ ''<li id="'' @ ResultProcessError.client_id e @ ''">''
       @ ResultProcessError_as_html e @ ''</li>'' @ NL
       @ ''<li>'' @ ClientStatus_as_html (s\<lparr>ClientStatus.client_id := ResultProcessError.client_id e\<rparr>)
       @ ''</li>'' @ NL\<close>
proof -
  have "fst (clients_section runs (body, qtys))
     = body @ (if runs = [] then ''<li>[no runs]</li>'' @ NL
               else concat (map (\<lambda>i. client_item (client_id_of ` set (take i runs)) (runs ! i))
                              [0..<length runs]))"
    by (simp add: clients_section_body client_loop_body)
  moreover have \<open>client_item seen c
     = (if client_id_of c \<in> seen then ''<li>'' @ ClientRun_as_html c @ ''</li>'' @ NL
        else ''<li id="'' @ client_id_of c @ ''">'' @ ClientRun_as_html c @ ''</li>'' @ NL)\<close>
    by (simp add: client_item_def)
  moreover have "x \<in> client_id_of ` set runs
        \<longrightarrow> (\<exists>!i. i < length runs \<and> client_id_of (runs ! i) = x
                   \<and> x \<notin> client_id_of ` set (take i runs))"
    using first_occurrence_unique [of x runs] by blast
  moreover have \<open>fst (clients_section
            [ProcessError e,
             Status (s\<lparr>ClientStatus.client_id := ResultProcessError.client_id e\<rparr>)]
            (body, qtys))
     = body @ ''<li id="'' @ ResultProcessError.client_id e @ ''">''
       @ ResultProcessError_as_html e @ ''</li>'' @ NL
       @ ''<li>'' @ ClientStatus_as_html (s\<lparr>ClientStatus.client_id := ResultProcessError.client_id e\<rparr>)
       @ ''</li>'' @ NL\<close>
    by (simp add: clients_section_body client_step_def)
  ultimately show ?thesis by blast
qed

theorem anchor_goes_to_first_entry_of_client_witness:
  \<open>fst (clients_section mixed_runs ([], []))
     = ''<li id="alpha">'' @ ResultProcessError_as_html alpha_error @ ''</li>'' @ NL
       @ ''<li>'' @ ClientStatus_as_html (client_run ''alpha'' 42) @ ''</li>'' @ NL
       @ ''<li>'' @ ClientStatus_as_html (client_run ''alpha'' 43) @ ''</li>'' @ NL
       @ ''<li id="beta">'' @ ClientStatus_as_html (client_run ''beta'' 7) @ ''</li>'' @ NL
   \<and> (\<exists>!i. i < length mixed_runs \<and> client_id_of (mixed_runs ! i) = ''alpha''
            \<and> ''alpha'' \<notin> client_id_of ` set (take i mixed_runs))\<close>
proof -
  have ids: "client_id_of ` set mixed_runs = {''alpha'', ''beta''}"
    by (auto simp: mixed_runs_def alpha_error_def client_run_def)
  have "[0..<length mixed_runs] = [0, 1, 2, 3]"
    by (simp add: mixed_runs_def upt_rec)
  moreover have "take 1 mixed_runs = [ProcessError alpha_error]"
    "take 2 mixed_runs = [ProcessError alpha_error, Status (client_run ''alpha'' 42)]"
    "take 3 mixed_runs = [ProcessError alpha_error, Status (client_run ''alpha'' 42),
        Status (client_run ''alpha'' 43)]"
    by (simp_all add: mixed_runs_def)
  moreover have "mixed_runs ! 0 = ProcessError alpha_error"
    "mixed_runs ! 1 = Status (client_run ''alpha'' 42)"
    "mixed_runs ! 2 = Status (client_run ''alpha'' 43)"
    "mixed_runs ! 3 = Status (client_run ''beta'' 7)"
    by (simp_all add: mixed_runs_def)
  moreover have "ResultProcessError.client_id alpha_error = ''alpha''"
    "ClientStatus.client_id (client_run ''alpha'' 42) = ''alpha''"
    "ClientStatus.client_id (client_run ''alpha'' 43) = ''alpha''"
    "ClientStatus.client_id (client_run ''beta'' 7) = ''beta''"
    by (simp_all add: alpha_error_def client_run_def)
  moreover have "mixed_runs \<noteq> []" by (simp add: mixed_runs_def)
  ultimately show ?thesis
    using anchor_goes_to_first_entry_of_client [of mixed_runs "[]" "[]" _ _ "''alpha''"] ids
    by (simp add: client_item_def)
qed

section \<open>The client results\<close>

subsection \<open>The pattern of the branch name\<close>

text \<open>
  The function \<open>match_result_branch\<close> gives the two groups of a string exactly when the
  string is \<^verbatim>\<open>result-\<close>, a non-empty first group without newline, a hyphen, and a
  non-empty second group of digits: it is the full match of the pattern.
\<close>

lemma hyphen_no_digit: "\<not> is_digit (CHR ''-'')"
  by (simp add: is_digit_def)

lemma is_digit_not_hyphen: "list_all is_digit g \<Longrightarrow> CHR ''-'' \<notin> set g"
  using hyphen_no_digit by (induction g) auto

lemma split_at_last_hyphen:
  assumes "CHR ''-'' \<in> set rest"
  shows "\<exists>g1. rest = g1 @ CHR ''-'' # rev (takeWhile (\<lambda>c. c \<noteq> CHR ''-'') (rev rest))"
proof -
  let ?P = "\<lambda>c. c \<noteq> CHR ''-''"
  from assms have ne: "dropWhile ?P (rev rest) \<noteq> []" by (simp add: dropWhile_eq_Nil_conv)
  then obtain x xs where d: "dropWhile ?P (rev rest) = x # xs"
    by (cases "dropWhile ?P (rev rest)") simp_all
  from ne have "\<not> ?P (hd (dropWhile ?P (rev rest)))" by (rule hd_dropWhile)
  with d have x: "x = CHR ''-''" by simp
  have "rev rest = takeWhile ?P (rev rest) @ dropWhile ?P (rev rest)" by simp
  then have "rev (rev rest) = rev (takeWhile ?P (rev rest) @ CHR ''-'' # xs)"
    using d x by simp
  then have "rest = rev xs @ CHR ''-'' # rev (takeWhile ?P (rev rest))" by simp
  then show ?thesis by blast
qed

lemma match_result_branch_iff:
  "match_result_branch s = Some (g1, g2) \<longleftrightarrow>
     s = ''result-'' @ g1 @ ''-'' @ g2 \<and> g1 \<noteq> [] \<and> CHR 0x0A \<notin> set g1
     \<and> g2 \<noteq> [] \<and> list_all is_digit g2"
proof
  assume m: "match_result_branch s = Some (g1, g2)"
  let ?rest = "drop 7 s"
  let ?g2 = "rev (takeWhile (\<lambda>c. c \<noteq> CHR ''-'') (rev ?rest))"
  let ?g1 = "take (length ?rest - length ?g2 - 1) ?rest"
  from m have pre: "take 7 s = ''result-''" and hy: "CHR ''-'' \<in> set ?rest"
    by (auto simp: match_result_branch_def split: if_splits)
  with m have g: "g1 = ?g1" "g2 = ?g2"
    and ok: "g1 \<noteq> []" "CHR 0x0A \<notin> set g1" "g2 \<noteq> []" "list_all is_digit g2"
    by (auto simp: match_result_branch_def Let_def split: if_splits)
  from split_at_last_hyphen [OF hy] obtain h where h: "?rest = h @ CHR ''-'' # ?g2" by blast
  then have "length ?rest = length h + 1 + length ?g2"
    by (metis length_append length_Cons Suc_eq_plus1 add.assoc add.commute)
  then have "?g1 = take (length h) ?rest" by simp
  also have "\<dots> = h" by (subst h) simp
  finally have "?rest = g1 @ CHR ''-'' # g2" using h g by simp
  moreover have "s = take 7 s @ drop 7 s" by simp
  ultimately have "s = ''result-'' @ g1 @ ''-'' @ g2" using pre by simp
  with ok show "s = ''result-'' @ g1 @ ''-'' @ g2 \<and> g1 \<noteq> [] \<and> CHR 0x0A \<notin> set g1
     \<and> g2 \<noteq> [] \<and> list_all is_digit g2" by simp
next
  assume a: "s = ''result-'' @ g1 @ ''-'' @ g2 \<and> g1 \<noteq> [] \<and> CHR 0x0A \<notin> set g1
     \<and> g2 \<noteq> [] \<and> list_all is_digit g2"
  then have nh: "CHR ''-'' \<notin> set g2" by (simp add: is_digit_not_hyphen)
  from a have pre: "take 7 s = ''result-''" and rest: "drop 7 s = g1 @ CHR ''-'' # g2"
    by simp_all
  have g2: "takeWhile (\<lambda>c. c \<noteq> CHR ''-'') (rev g2 @ CHR ''-'' # rev g1) = rev g2"
  proof -
    have "takeWhile (\<lambda>c. c \<noteq> CHR ''-'') (rev g2 @ CHR ''-'' # rev g1)
        = rev g2 @ takeWhile (\<lambda>c. c \<noteq> CHR ''-'') (CHR ''-'' # rev g1)"
      by (rule takeWhile_append2) (use nh in auto)
    then show ?thesis by simp
  qed
  show "match_result_branch s = Some (g1, g2)"
    using a by (simp add: match_result_branch_def pre rest g2 Let_def)
qed

lemma match_result_branch_alpha: "match_result_branch ''result-alpha-42'' = Some (''alpha'', ''42'')"
  by code_simp

subsection \<open>The error of the result processing\<close>

text \<open>
  A completed run after the cutoff whose branch name matches and whose conclusion the
  classifier maps to an outcome other than \<open>PASS\<close> adds a \<^verbatim>\<open>ResultProcessError\<close> with the
  client identifier and the build number of the branch name, and the loop goes on. The
  conclusions for which the classifier does so are \<^verbatim>\<open>failure\<close> and the five that it maps
  to \<open>INCOMPLETE\<close>.
\<close>

lemma client_error_for_other_conclusions:
  assumes "GithubRun.status run = ''completed''"
    and "cutoff < instant (created_at run)"
    and "head_branch run = ''result-'' @ cid @ ''-'' @ digits"
    and "cid \<noteq> []" and "CHR 0x0A \<notin> set cid" and "digits \<noteq> []" and "list_all is_digit digits"
    and "from_conclusion (conclusion run) = Inr oc" and "oc \<noteq> PASS"
  shows "fetch_client_statuses s cutoff (run # runs) client_statuses
    = fetch_client_statuses s cutoff runs
        (client_statuses @
         [ProcessError
            \<lparr>ResultProcessError.client_id = cid,
             ResultProcessError.build_id = int_of_digits digits,
             ResultProcessError.timestamp = ensure_aware (created_at run),
             ResultProcessError.url = html_url run\<rparr>])"
proof -
  have "match_result_branch (head_branch run) = Some (cid, digits)"
    using assms(3-7) by (simp add: match_result_branch_iff)
  moreover have "le_cutoff (ensure_aware (created_at run)) cutoff = Inr False"
    using assms(2) by (simp add: le_cutoff_def ensure_aware_def)
  ultimately show ?thesis using assms(1,8,9) by simp
qed

lemma from_conclusion_not_pass:
  "from_conclusion c = Inr oc \<and> oc \<noteq> PASS \<longleftrightarrow>
     (c = ''failure'' \<and> oc = FAIL)
     \<or> (c \<in> {''neutral'', ''action_required'', ''cancelled'', ''skipped'', ''stale''}
        \<and> oc = INCOMPLETE)"
proof (cases "c = ''success''")
  case True
  then show ?thesis by (simp add: from_conclusion_def)
next
  case ns: False
  show ?thesis
  proof (cases "c = ''failure''")
    case True
    then show ?thesis by (simp add: from_conclusion_def) blast
  next
    case nf: False
    show ?thesis
    proof (cases "c = ''timed_out''")
      case True
      then show ?thesis by (simp add: from_conclusion_def)
    next
      case nt: False
      show ?thesis
      proof (cases "c \<in> {''neutral'', ''action_required'', ''cancelled'', ''skipped'', ''stale''}")
        case True
        with ns nf nt have "from_conclusion c = Inr INCOMPLETE"
          unfolding from_conclusion_def by (simp only: if_False if_True)
        with True nf show ?thesis by (simp only: sum.inject) blast
      next
        case False
        with ns nf nt have "from_conclusion c = Inl (UnknownConclusion c)"
          unfolding from_conclusion_def by (simp only: if_False if_True)
        with False nf show ?thesis by (simp only: sum.distinct) blast
      qed
    qed
  qed
qed

text \<open>
  Claim C6: every client run that is kept and whose conclusion is not classified as Pass
  gives a \<^verbatim>\<open>ResultProcessError\<close> with the client identifier and the build number of its
  branch name. The run on the branch \<^verbatim>\<open>result-alpha-42\<close> with the conclusion
  \<^verbatim>\<open>failure\<close> does give the error record of \<^verbatim>\<open>alpha\<close> and \<open>42\<close>. The same run with the
  conclusion \<^verbatim>\<open>timed_out\<close>, which the table of the classifier maps to Error, gives no
  record: the classifier raises \<^verbatim>\<open>AttributeError\<close> on it, and the loop ends with that
  exception, whatever the session answers.
\<close>

theorem timed_out_client_run_raises:
  "fetch_client_statuses s 0 [result_run ''timed_out''] [] = Inl (AttributeError ''ERRROR'')
   \<and> fetch_client_statuses s 0 [result_run ''failure''] []
     = Inr [ProcessError
              \<lparr>ResultProcessError.client_id = ''alpha'', ResultProcessError.build_id = 42,
               ResultProcessError.timestamp =
                 \<lparr>tz_aware = True, instant = 100, as_str = ''2021-03-05 06:00:00+00:00''\<rparr>,
               ResultProcessError.url = ''https://example.org/run''\<rparr>]"
proof -
  have m: "match_result_branch (head_branch (result_run c)) = Some (''alpha'', ''42'')" for c
    using match_result_branch_alpha by (simp add: result_run_def)
  have i: "int_of_digits ''42'' = 42"
    by (simp add: int_of_digits_def digit_val_def)
  have c: "le_cutoff (ensure_aware (created_at (result_run c))) 0 = Inr False" for c
    by (simp add: result_run_def ensure_aware_def le_cutoff_def)
  have st: "GithubRun.status (result_run c) = ''completed''" "conclusion (result_run c) = c" for c
    by (simp_all add: result_run_def)
  have "from_conclusion ''timed_out'' = Inl (AttributeError ''ERRROR'')"
    "from_conclusion ''failure'' = Inr FAIL"
    by (simp_all add: from_conclusion_def)
  then show ?thesis
    by (simp add: m i c st) (simp add: result_run_def ensure_aware_def)
qed

section \<open>The scan of the Appveyor builds\<close>




lemma make_builds_Inl_iff:
  "(\<exists>e. make_builds s xs = Inl e) \<longleftrightarrow> (\<exists>x \<in> set xs. \<exists>e. make_build s x = Inl e)"
  by (induction xs) (auto split: sum.splits)

lemma scan_builds_kept_prefix:
  assumes "\<forall>b \<in> set pre. case finished b of None \<Rightarrow> True
                          | Some fin \<Rightarrow> tz_aware fin \<and> cutoff < instant fin"
  shows "scan_builds s cutoff (pre @ rest) out
     = (case make_builds s (filter (\<lambda>b. finished b \<noteq> None) pre) of
          Inl e \<Rightarrow> Inl e
        | Inr bs \<Rightarrow> scan_builds s cutoff rest (out @ bs))"
  using assms
proof (induction pre arbitrary: out)
  case Nil
  then show ?case by simp
next
  case (Cons b pre)
  show ?case
  proof (cases "finished b")
    case None
    with Cons show ?thesis by simp
  next
    case (Some fin)
    with Cons.prems have "le_cutoff fin cutoff = Inr False" by (simp add: le_cutoff_def)
    with Some Cons.IH Cons.prems show ?thesis by (simp split: sum.splits)
  qed
qed


lemma fetch_appveyor_builds_no_builds:
  "history s start = Inr [] \<Longrightarrow>
   fetch_appveyor_builds (Suc fuel) s cutoff start out = Some (Inr out)"
  by simp

lemma fetch_appveyor_builds_next_page:
  assumes "history s start = Inr page" and "page \<noteq> []"
    and "\<forall>b \<in> set page. case finished b of None \<Rightarrow> True
                          | Some fin \<Rightarrow> tz_aware fin \<and> cutoff < instant fin"
  shows "fetch_appveyor_builds (Suc fuel) s cutoff start out
     = (case make_builds s (filter (\<lambda>b. finished b \<noteq> None) page) of
          Inl e \<Rightarrow> Some (Inl e)
        | Inr bs \<Rightarrow> fetch_appveyor_builds fuel s cutoff (Some (buildId (last page))) (out @ bs))"
  using assms(1,2) scan_builds_kept_prefix [OF assms(3), of s "[]" out]
  by (simp split: sum.splits)

lemma fetch_appveyor_builds_more_fuel:
  "fetch_appveyor_builds fuel s cutoff start out = Some r \<Longrightarrow>
   fetch_appveyor_builds (fuel + k) s cutoff start out = Some r"
proof (induction fuel arbitrary: start out)
  case 0
  then show ?case by simp
next
  case (Suc fuel)
  then show ?case by (auto split: sum.splits scan.splits if_splits)
qed



end
